theory Spec2Isabelle
  imports Complex_Main "HOL-Library.Multiset"
begin

section \<open>Gini impurity of a label vector\<close>

text \<open>
  The notebook \<^verbatim>\<open>notebooks/trees/gini-impurity.ipynb\<close> defines one function:
  \<^verbatim>\<open>
  def gini(y):
      _, counts = np.unique(y, return_counts=True)
      p = counts / len(y)
      return 1 - np.sum( p**2 )
  \<close>
  Labels are values of a linearly ordered type, since \<^verbatim>\<open>np.unique\<close> sorts them.
  The function is given twice. \<open>gini\<close> computes with exact arithmetic on \<^typ>\<open>real\<close>: it
  is the value of the formula that the three statements evaluate. \<open>gini_f64\<close> is the same
  three statements with every float64 operation of numpy rounded as IEEE 754 rounds it
  (to the nearest double, ties to even). The grouping and counting of the labels is the
  same in both.
\<close>

subsection \<open>The numpy operations used by the function\<close>

text \<open>Exceptions a Python call can raise, as values.\<close>

datatype py_error = TypeError | ZeroDivisionError

text \<open>
  The lengths of the runs of equal neighbours of an array, each with the value of its run.
  On a sorted array a run holds every occurrence of its value.
\<close>

fun run_counts :: "'a list \<Rightarrow> ('a \<times> nat) list" where
  "run_counts [] = []"
| "run_counts (x # xs) =
     (case run_counts xs of
        [] \<Rightarrow> [(x, 1)]
      | (v, c) # rest \<Rightarrow> if x = v then (v, Suc c) # rest else (x, 1) # (v, c) # rest)"

text \<open>
  \<^verbatim>\<open>np.unique(ar, return_counts=True)\<close>: a sorted copy of the array is cut into its runs;
  the result is the pair of the sorted distinct values and of the number of times each
  of them occurs.
\<close>

definition np_unique :: "'a::linorder list \<Rightarrow> 'a list \<times> nat list" where
  "np_unique ar =
     (let aux = sort ar;
          runs = run_counts aux
      in (map fst runs, map snd runs))"

text \<open>
  \<^verbatim>\<open>counts / n\<close>: true division of every element of an integer array by a Python integer.
  numpy raises nothing here, whatever \<open>n\<close> is; on the empty array no element is divided.
\<close>

definition np_true_divide :: "nat list \<Rightarrow> nat \<Rightarrow> real list" where
  "np_true_divide counts n = map (\<lambda>c. real c / real n) counts"

text \<open>\<^verbatim>\<open>p ** e\<close>, elementwise.\<close>

definition np_power :: "real list \<Rightarrow> nat \<Rightarrow> real list" where
  "np_power p e = map (\<lambda>x. x ^ e) p"

text \<open>\<^verbatim>\<open>np.sum(a)\<close>; the sum of the empty array is 0.\<close>

definition np_sum :: "real list \<Rightarrow> real" where
  "np_sum a = sum_list a"

subsection \<open>The function\<close>

definition gini :: "'a::linorder list \<Rightarrow> py_error + real" where
  "gini y =
     (let (uu, counts) = np_unique y;
          p = np_true_divide counts (length y)
      in Inr (1 - np_sum (np_power p 2)))"

subsection \<open>The function on a store\<close>

text \<open>
  Python passes \<open>y\<close> by reference. To speak about what a call leaves behind, the label
  arrays live in a store: \<open>heap\<close> gives the array at each address, the addresses below
  \<open>next_addr\<close> are those in use, \<open>globals\<close> binds the module's names and \<open>stdout\<close> is
  what has been printed. The arrays of counts and of frequencies are new values that only
  the call itself holds; they are passed on as values.
\<close>

type_synonym addr = nat

record 'a py_state =
  heap :: "addr \<Rightarrow> 'a list"
  next_addr :: addr
  globals :: "string \<rightharpoonup> addr"
  stdout :: "string list"

text \<open>A new array, at the first free address.\<close>

definition alloc :: "'a list \<Rightarrow> 'a py_state \<Rightarrow> addr \<times> 'a py_state" where
  "alloc xs s =
     (next_addr s, s\<lparr>heap := (heap s)(next_addr s := xs), next_addr := Suc (next_addr s)\<rparr>)"

text \<open>\<^verbatim>\<open>ar.sort()\<close>: the array at the address is sorted where it is.\<close>

definition sort_in_place :: "addr \<Rightarrow> 'a::linorder py_state \<Rightarrow> 'a py_state" where
  "sort_in_place a s = s\<lparr>heap := (heap s)(a := sort (heap s a))\<rparr>"

text \<open>
  \<^verbatim>\<open>np.unique\<close> on the store: it flattens its argument into a new array, sorts the new
  array in place and reads the runs from it.
\<close>

definition np_unique_st ::
  "addr \<Rightarrow> 'a::linorder py_state \<Rightarrow> ('a list \<times> nat list) \<times> 'a py_state" where
  "np_unique_st ar s =
     (let (aux, s1) = alloc (heap s ar) s;
          s2 = sort_in_place aux s1;
          runs = run_counts (heap s2 aux)
      in ((map fst runs, map snd runs), s2))"

text \<open>The three statements of \<open>gini\<close>; \<open>len(y)\<close> reads \<open>y\<close> after the call of \<^verbatim>\<open>np.unique\<close>.\<close>

definition gini_st :: "addr \<Rightarrow> 'a::linorder py_state \<Rightarrow> (py_error + real) \<times> 'a py_state" where
  "gini_st y s =
     (let ((uu, counts), s1) = np_unique_st y s;
          p = np_true_divide counts (length (heap s1 y))
      in (Inr (1 - np_sum (np_power p 2)), s1))"

subsection \<open>The function in float64\<close>

text \<open>
  A double is a real \<open>m * 2 ^ e\<close> with an integer \<open>m\<close> of at most 53 bits. Rounding takes a
  real to the nearest double; of two doubles equally near, to the one with the even \<open>m\<close>.
\<close>

definition round_half_even :: "real \<Rightarrow> int" where
  "round_half_even r =
     (let f = \<lfloor>r\<rfloor>; d = r - of_int f
      in if d < 1 / 2 then f else if 1 / 2 < d then f + 1 else if even f then f else f + 1)"

text \<open>
  The binary exponent of \<open>x\<close>: the \<open>e\<close> with \<open>2 ^ e \<le> \<bar>x\<bar> < 2 ^ (e + 1)\<close>, found by halving
  or doubling. It is not taken below -1022, where the subnormal doubles begin. From
  \<open>2 ^ 1024\<close> on float64 has no finite value; \<open>gini_f64\<close> stays far below, its largest
  intermediate value being at most the number of labels.
\<close>

fun binade_down :: "nat \<Rightarrow> real \<Rightarrow> int" where
  "binade_down 0 x = 0"
| "binade_down (Suc n) x = (if x < 1 then binade_down n (2 * x) - 1 else 0)"

fun binade_up :: "nat \<Rightarrow> real \<Rightarrow> int" where
  "binade_up 0 x = 0"
| "binade_up (Suc n) x = (if 2 \<le> x then binade_up n (x / 2) + 1 else 0)"

definition binade :: "real \<Rightarrow> int" where
  "binade x = (if 1 \<le> \<bar>x\<bar> then binade_up 1023 \<bar>x\<bar> else binade_down 1022 \<bar>x\<bar>)"

definition f64 :: "real \<Rightarrow> real" where
  "f64 x = (let s = 2 powi (binade x - 52) in of_int (round_half_even (x / s)) * s)"

text \<open>One float64 addition.\<close>

definition add_f64 :: "real \<Rightarrow> real \<Rightarrow> real" where
  "add_f64 a b = f64 (a + b)"

text \<open>
  \<^verbatim>\<open>np.sum\<close> of a float64 array adds in the order of numpy's pairwise summation: from left
  to right when there are fewer than 8 elements; with eight running sums over the blocks
  of 8, combined two by two, and the remaining elements added from left to right, when
  there are at most 128; by halves (the first a multiple of 8) above that.
\<close>

function pairwise_sum :: "real list \<Rightarrow> real" where
  "pairwise_sum a =
     (let n = length a in
      if n < 8 then foldl add_f64 0 a
      else if n \<le> 128 then
        (let r = foldl (\<lambda>r b. map2 add_f64 r (take 8 (drop (8 * b) a))) (take 8 a)
                   [1 ..< n div 8];
             res = add_f64 (add_f64 (add_f64 (r ! 0) (r ! 1)) (add_f64 (r ! 2) (r ! 3)))
                           (add_f64 (add_f64 (r ! 4) (r ! 5)) (add_f64 (r ! 6) (r ! 7)))
         in foldl add_f64 res (drop (n - n mod 8) a))
      else
        (let n2 = n div 2 - (n div 2) mod 8
         in add_f64 (pairwise_sum (take n2 a)) (pairwise_sum (drop n2 a))))"
  by pat_completeness auto
termination
  by (relation "measure length") auto

definition np_sum_f64 :: "real list \<Rightarrow> real" where
  "np_sum_f64 a = pairwise_sum a"

text \<open>
  \<^verbatim>\<open>counts / n\<close>: the integers are converted to float64 and each quotient is rounded.
\<close>

definition np_true_divide_f64 :: "nat list \<Rightarrow> nat \<Rightarrow> real list" where
  "np_true_divide_f64 counts n = map (\<lambda>c. f64 (f64 (real c) / f64 (real n))) counts"

text \<open>\<^verbatim>\<open>p ** 2\<close>: numpy squares each element with one rounded multiplication.\<close>

definition np_square_f64 :: "real list \<Rightarrow> real list" where
  "np_square_f64 p = map (\<lambda>x. f64 (x * x)) p"

text \<open>The three statements of \<open>gini\<close>, rounded; the subtraction from 1 is rounded too.\<close>

definition gini_f64 :: "'a::linorder list \<Rightarrow> py_error + real" where
  "gini_f64 y =
     (let (uu, counts) = np_unique y;
          p = np_true_divide_f64 counts (length y)
      in Inr (f64 (1 - np_sum_f64 (np_square_f64 p))))"

section \<open>Properties\<close>

subsection \<open>What \<open>np_unique\<close> returns\<close>

lemma run_counts_keys: "map fst (run_counts xs) = remdups_adj xs"
  by (induction xs) (auto simp: remdups_adj_Cons split: list.splits)

lemma sorted_distinct_remdups_adj: "sorted xs \<Longrightarrow> distinct (remdups_adj xs)"
  by (induction xs rule: remdups_adj.induct) force+

lemma run_counts_sorted:
  "sorted xs \<Longrightarrow> run_counts xs = map (\<lambda>v. (v, count_list xs v)) (remdups_adj xs)"
proof (induction xs)
  case Nil
  then show ?case by simp
next
  case (Cons x xs)
  have sx: "sorted xs" and le: "\<forall>z\<in>set xs. x \<le> z"
    using Cons.prems by simp_all
  have IH: "run_counts xs = map (\<lambda>v. (v, count_list xs v)) (remdups_adj xs)"
    using Cons.IH sx by simp
  show ?case
  proof (cases "remdups_adj xs")
    case Nil
    then have "xs = []" by simp
    then show ?thesis by simp
  next
    case (Cons y ys)
    have d: "distinct (y # ys)"
      using sorted_distinct_remdups_adj [OF sx] Cons by simp
    have sub: "set (y # ys) = set xs"
      using remdups_adj_set [of xs] Cons by simp
    have rc: "run_counts xs = (y, count_list xs y) # map (\<lambda>v. (v, count_list xs v)) ys"
      using IH Cons by simp
    show ?thesis
    proof (cases "x = y")
      case True
      have "\<forall>v\<in>set ys. v \<noteq> x" using d True by auto
      then have "map (\<lambda>v. (v, count_list (x # xs) v)) ys = map (\<lambda>v. (v, count_list xs v)) ys"
        by (intro map_cong) auto
      then show ?thesis
        using True rc Cons by (simp add: remdups_adj_Cons)
    next
      case False
      have hd: "y = hd xs" using hd_remdups_adj [of xs] Cons by simp
      have "x \<notin> set xs"
      proof
        assume "x \<in> set xs"
        then have "xs \<noteq> []" by auto
        then have "\<forall>z\<in>set xs. hd xs \<le> z" using sx by (cases xs) auto
        then have "y \<le> x" using \<open>x \<in> set xs\<close> hd by simp
        moreover have "x \<le> y" using le sub by auto
        ultimately show False using False by simp
      qed
      then have c0: "count_list xs x = 0" by (simp add: count_list_0_iff)
      have "\<forall>v\<in>set (y # ys). v \<noteq> x" using \<open>x \<notin> set xs\<close> sub by metis
      then have "map (\<lambda>v. (v, count_list (x # xs) v)) (y # ys) = map (\<lambda>v. (v, count_list xs v)) (y # ys)"
        by (intro map_cong) auto
      then show ?thesis
        using False rc Cons c0 by (simp add: remdups_adj_Cons)
    qed
  qed
qed

text \<open>The first component is the sorted list of the distinct labels.\<close>

lemma np_unique_values: "fst (np_unique y) = remdups_adj (sort y)"
  by (simp add: np_unique_def Let_def run_counts_keys)

lemma np_unique_values_set: "set (fst (np_unique y)) = set y"
  by (simp add: np_unique_values)

lemma np_unique_values_distinct: "distinct (fst (np_unique y))"
  by (simp add: np_unique_values sorted_distinct_remdups_adj)

text \<open>The second component holds, label by label, how often the label occurs in the input.\<close>

lemma np_unique_counts: "snd (np_unique y) = map (count_list y) (fst (np_unique y))"
proof -
  have "count_list (sort y) = count_list y"
    by (rule ext) (metis count_mset mset_sort)
  then show ?thesis
    by (simp add: np_unique_def Let_def run_counts_sorted run_counts_keys comp_def)
qed

text \<open>
  The divisor \<open>len(y)\<close> is zero only when there is nothing to divide: HOL's \<open>x / 0 = 0\<close>
  is never used on an element of \<open>counts\<close>.
\<close>

lemma np_unique_counts_empty: "snd (np_unique y) = [] \<longleftrightarrow> length y = 0"
proof -
  have "sort y = [] \<longleftrightarrow> y = []"
    by (metis length_0_conv length_sort)
  then show ?thesis
    by (simp add: np_unique_counts np_unique_values)
qed

text \<open>The sum of squares of the function, as a sum over the set of labels.\<close>

lemma gini_sum:
  "gini y = Inr (1 - (\<Sum>v\<in>set y. (real (count_list y v) / real (length y))\<^sup>2))"
proof -
  have "np_sum (np_power (np_true_divide (snd (np_unique y)) (length y)) 2)
        = sum_list (map (\<lambda>v. (real (count_list y v) / real (length y))\<^sup>2) (fst (np_unique y)))"
    by (simp add: np_sum_def np_power_def np_true_divide_def np_unique_counts comp_def)
  also have "\<dots> = (\<Sum>v\<in>set (fst (np_unique y)). (real (count_list y v) / real (length y))\<^sup>2)"
    using np_unique_values_distinct by (rule sum_list_distinct_conv_sum_set)
  finally show ?thesis
    by (simp add: gini_def Let_def split_beta np_unique_values_set)
qed

subsection \<open>The formula\<close>

text \<open>
  C1. For every non-empty sequence of labels \<open>y\<close>, \<open>gini y\<close> is 1 minus the sum, over the
  distinct labels \<open>i\<close> of \<open>y\<close>, of the square of \<open>p i = count i / len y\<close>, the frequency of
  \<open>i\<close> in \<open>y\<close>.
\<close>

theorem gini_formula:
  "y \<noteq> [] \<Longrightarrow>
   gini y = Inr (1 - (\<Sum>i\<in>set y. (real (count_list y i) / real (length y))\<^sup>2))"
  by (rule gini_sum)

theorem gini_formula_witness:
  "[0, 0, 0, 1 :: int] \<noteq> [] \<and>
   gini [0, 0, 0, 1 :: int] =
     Inr (1 - (\<Sum>i\<in>set [0, 0, 0, 1 :: int].
                 (real (count_list [0, 0, 0, 1] i) / real (length [0, 0, 0, 1 :: int]))\<^sup>2))"
  using gini_formula [of "[0, 0, 0, 1 :: int]"] by simp

subsection \<open>Concrete label vectors\<close>

text \<open>
  C7. \<open>gini [0,0,0,0]\<close> is 0.0, \<open>gini [0,0,1,1]\<close> is 0.5 and \<open>gini [0,0,0,1]\<close> is 0.375.
\<close>

theorem gini_scenarios:
  "gini [0, 0, 0, 0 :: int] = Inr 0 \<and>
   gini [0, 0, 1, 1 :: int] = Inr 0.5 \<and>
   gini [0, 0, 0, 1 :: int] = Inr 0.375"
  by (simp add: gini_def np_unique_def np_true_divide_def np_power_def np_sum_def
        power2_eq_square)

subsection \<open>The empty label vector\<close>

text \<open>
  C9. On the empty label sequence \<open>gini\<close> raises no error and returns exactly 1.0:
  \<open>np_unique\<close> gives an empty array of counts, dividing it by \<open>len y = 0\<close> gives an empty
  array, and 1 minus the empty sum is 1.
\<close>

theorem gini_empty:
  "snd (np_unique ([] :: 'a::linorder list)) = [] \<and>
   np_true_divide [] (length ([] :: 'a list)) = [] \<and>
   np_sum (np_power [] 2) = 0 \<and>
   gini ([] :: 'a list) = Inr 1"
  by (simp add: gini_def np_unique_def np_true_divide_def np_power_def np_sum_def)

text \<open>
  C2, as stated: called on an empty label sequence, \<open>gini\<close> raises (or returns) an
  empty-input error that goes straight to the caller. The function has no such check: on
  the empty sequence its result is a value, not an error.
\<close>

theorem gini_empty_error_counterexample:
  "\<not> isl (gini ([] :: int list))"
  by (simp add: gini_def np_unique_def np_true_divide_def np_power_def np_sum_def)

text \<open>
  C2, amended: called on an empty label sequence, \<open>gini\<close> raises no error; it returns the
  value 1.0 to the caller.
\<close>

theorem gini_empty_returns:
  "\<not> isl (gini ([] :: 'a::linorder list)) \<and> projr (gini ([] :: 'a list)) = 1"
  by (simp add: gini_def np_unique_def np_true_divide_def np_power_def np_sum_def)

subsection \<open>Frequencies\<close>

lemma card_labels_pos: "y \<noteq> [] \<Longrightarrow> 0 < card (set y)"
  by (metis card_gt_0_iff List.finite_set set_empty)

lemma freq_sum:
  assumes "y \<noteq> []"
  shows "(\<Sum>v\<in>set y. real (count_list y v) / real (length y)) = 1"
proof -
  have "(\<Sum>v\<in>set y. real (count_list y v)) = real (length y)"
    using sum_count_set [of y "set y"] by (simp flip: of_nat_sum)
  then have "(\<Sum>v\<in>set y. real (count_list y v)) / real (length y) = 1"
    using assms by simp
  then show ?thesis by (simp add: sum_divide_distrib)
qed

lemma freq_pos:
  assumes "v \<in> set y"
  shows "0 < real (count_list y v) / real (length y)"
proof -
  have "count_list y v \<noteq> 0" using assms by (simp add: count_list_0_iff)
  then have "0 < count_list y v" by simp
  moreover have "0 < length y" using assms by (cases y) auto
  ultimately show ?thesis by simp
qed

lemma freq_le_1: "real (count_list y v) / real (length y) \<le> 1"
  using count_le_length [of y v] by (cases "length y = 0") (simp_all add: divide_le_eq)

lemma sumsq_le_1:
  assumes "y \<noteq> []"
  shows "(\<Sum>v\<in>set y. (real (count_list y v) / real (length y))\<^sup>2) \<le> 1"
proof -
  have "(\<Sum>v\<in>set y. (real (count_list y v) / real (length y))\<^sup>2)
        \<le> (\<Sum>v\<in>set y. real (count_list y v) / real (length y))"
  proof (rule sum_mono)
    fix v assume "v \<in> set y"
    let ?p = "real (count_list y v) / real (length y)"
    have "0 \<le> ?p" by simp
    moreover have "?p \<le> 1" by (rule freq_le_1)
    ultimately have "?p * ?p \<le> ?p * 1" by (intro mult_left_mono)
    then show "?p\<^sup>2 \<le> ?p" by (simp add: power2_eq_square)
  qed
  then show ?thesis using freq_sum [OF assms] by simp
qed

text \<open>The sum of squares is least when the frequencies are equal.\<close>

lemma sumsq_ge_inverse_card:
  assumes "y \<noteq> []"
  shows "1 / real (card (set y)) \<le> (\<Sum>v\<in>set y. (real (count_list y v) / real (length y))\<^sup>2)"
proof -
  let ?k = "real (card (set y))"
  let ?p = "\<lambda>v. real (count_list y v) / real (length y)"
  have k: "0 < ?k" using card_labels_pos [OF assms] by linarith
  have "0 \<le> (\<Sum>v\<in>set y. (?p v - 1 / ?k)\<^sup>2)"
    by (rule sum_nonneg) simp
  also have "(\<Sum>v\<in>set y. (?p v - 1 / ?k)\<^sup>2)
      = (\<Sum>v\<in>set y. (?p v)\<^sup>2 - (2 / ?k) * ?p v + (1 / ?k)\<^sup>2)"
    by (rule sum.cong) (simp_all add: power2_diff algebra_simps)
  also have "\<dots> = (\<Sum>v\<in>set y. (?p v)\<^sup>2) - (2 / ?k) * (\<Sum>v\<in>set y. ?p v) + ?k * (1 / ?k)\<^sup>2"
    by (simp add: sum.distrib sum_subtractf sum_distrib_left)
  also have "\<dots> = (\<Sum>v\<in>set y. (?p v)\<^sup>2) - 2 / ?k + 1 / ?k"
    using k by (simp add: freq_sum [OF assms] power2_eq_square)
  finally show ?thesis by simp
qed

subsection \<open>Range of the exact value\<close>

text \<open>
  In exact arithmetic the value of the formula on a non-empty label sequence with \<open>k\<close>
  distinct labels lies between 0 and \<open>(k - 1) / k\<close>, and is at most 0.5 when \<open>k \<le> 2\<close>. This
  is the range that the docstring of the function gives.
\<close>

lemma gini_exact_range:
  assumes "y \<noteq> []"
  shows "\<exists>g. gini y = Inr g \<and> 0 \<le> g
           \<and> g \<le> (real (card (set y)) - 1) / real (card (set y))
           \<and> g \<le> 1
           \<and> (card (set y) \<le> 2 \<longrightarrow> g \<le> 0.5)"
proof -
  let ?k = "real (card (set y))"
  let ?s = "\<Sum>v\<in>set y. (real (count_list y v) / real (length y))\<^sup>2"
  have k: "1 \<le> ?k" using card_labels_pos [OF assms] by linarith
  have g: "gini y = Inr (1 - ?s)" by (rule gini_sum)
  have lo: "0 \<le> 1 - ?s" using sumsq_le_1 [OF assms] by simp
  have "(?k - 1) / ?k = 1 - 1 / ?k" using assms by (simp add: diff_divide_distrib)
  then have up: "1 - ?s \<le> (?k - 1) / ?k" using sumsq_ge_inverse_card [OF assms] by simp
  have "0 \<le> ?s" by (rule sum_nonneg) simp
  then have one: "1 - ?s \<le> 1" by simp
  have half: "1 - ?s \<le> 0.5" if "card (set y) \<le> 2"
  proof -
    have "?k \<le> 2" using that by simp
    then have "1 / 2 \<le> 1 / ?k" using k by (simp add: field_simps)
    then show ?thesis using sumsq_ge_inverse_card [OF assms] by simp
  qed
  show ?thesis using g lo up one half by blast
qed

subsection \<open>Pure label vectors\<close>

text \<open>
  C4. For every non-empty label sequence \<open>y\<close>, \<open>gini y\<close> is 0 if and only if \<open>y\<close> has
  exactly one distinct label, that is, if and only if all elements of \<open>y\<close> are the same.
\<close>

theorem gini_zero_iff:
  assumes "y \<noteq> []"
  shows "(gini y = Inr 0 \<longleftrightarrow> card (set y) = 1) \<and>
         (gini y = Inr 0 \<longleftrightarrow> (\<exists>v. y = replicate (length y) v))"
proof -
  let ?p = "\<lambda>v. real (count_list y v) / real (length y)"
  have s1: "(\<Sum>v\<in>set y. ?p v) = 1" by (rule freq_sum [OF assms])
  have "gini y = Inr 0 \<longleftrightarrow> (\<Sum>v\<in>set y. (?p v)\<^sup>2) = 1"
    by (simp add: gini_sum)
  also have "\<dots> \<longleftrightarrow> (\<Sum>v\<in>set y. ?p v * (1 - ?p v)) = 0"
    using s1 by (simp add: algebra_simps sum_subtractf power2_eq_square)
  also have "\<dots> \<longleftrightarrow> (\<forall>v\<in>set y. ?p v * (1 - ?p v) = 0)"
  proof (rule sum_nonneg_eq_0_iff)
    show "finite (set y)" by simp
    fix v assume "v \<in> set y"
    have "0 \<le> ?p v" by simp
    moreover have "0 \<le> 1 - ?p v" using freq_le_1 [of y v] by simp
    ultimately show "0 \<le> ?p v * (1 - ?p v)" by (rule mult_nonneg_nonneg)
  qed
  also have "\<dots> \<longleftrightarrow> (\<forall>v\<in>set y. ?p v = 1)"
  proof (intro ball_cong refl)
    fix v assume "v \<in> set y"
    then have "0 < ?p v" by (rule freq_pos)
    then have "?p v \<noteq> 0" by (metis less_irrefl)
    then show "?p v * (1 - ?p v) = 0 \<longleftrightarrow> ?p v = 1"
      by (simp only: mult_eq_0_iff) auto
  qed
  also have "\<dots> \<longleftrightarrow> card (set y) = 1"
  proof
    assume a: "\<forall>v\<in>set y. ?p v = 1"
    have "real (card (set y)) = (\<Sum>v\<in>set y. (1::real))" by simp
    also have "\<dots> = (\<Sum>v\<in>set y. ?p v)"
      by (rule sum.cong [OF refl]) (use a in metis)
    also have "\<dots> = 1" by (rule s1)
    finally have "real (card (set y)) = 1" .
    then show "card (set y) = 1" by (simp only: of_nat_eq_1_iff)
  next
    assume "card (set y) = 1"
    then obtain a where a: "set y = {a}" by (auto simp: card_1_singleton_iff)
    have "?p a = (\<Sum>v\<in>set y. ?p v)" unfolding a by simp
    then have "?p a = 1" using s1 by (rule trans)
    then show "\<forall>v\<in>set y. ?p v = 1" unfolding a by blast
  qed
  finally have one: "gini y = Inr 0 \<longleftrightarrow> card (set y) = 1" .
  have "card (set y) = 1 \<longleftrightarrow> (\<exists>v. y = replicate (length y) v)"
  proof
    assume "card (set y) = 1"
    then obtain a where "set y = {a}" by (auto simp: card_1_singleton_iff)
    then have "replicate (length y) a = y" by (intro replicate_length_same) simp
    then show "\<exists>v. y = replicate (length y) v" by metis
  next
    assume "\<exists>v. y = replicate (length y) v"
    then obtain v where v: "y = replicate (length y) v" ..
    have "set (replicate (length y) v) = {v}" using assms by simp
    then have "set y = {v}" using v by simp
    then show "card (set y) = 1" by simp
  qed
  with one show ?thesis by simp
qed

theorem gini_zero_iff_witness:
  "[7, 7, 7 :: int] \<noteq> [] \<and> gini [7, 7, 7 :: int] = Inr 0 \<and>
   [0, 0, 1 :: int] \<noteq> [] \<and> gini [0, 0, 1 :: int] \<noteq> Inr 0"
  using gini_zero_iff [of "[7, 7, 7 :: int]"] gini_zero_iff [of "[0, 0, 1 :: int]"]
  by simp

subsection \<open>Order of the labels\<close>

text \<open>
  C5. For every non-empty label sequence \<open>y\<close> and every permutation \<open>y'\<close> of \<open>y\<close>,
  \<open>gini y' = gini y\<close>: the result depends on the multiset of the labels only, not on their
  order.
\<close>

theorem gini_permutation:
  assumes "y \<noteq> []" and "mset y' = mset y"
  shows "gini y' = gini y"
proof -
  have "sort y' = sort y"
    using assms(2) by (metis mset_sort properties_for_sort sorted_sort)
  moreover have "length y' = length y"
    using assms(2) by (rule mset_eq_length)
  ultimately show ?thesis
    by (simp add: gini_def np_unique_def)
qed

theorem gini_permutation_witness:
  "[0, 0, 1 :: int] \<noteq> [] \<and> mset [1, 0, 0 :: int] = mset [0, 0, 1] \<and>
   gini [1, 0, 0 :: int] = gini [0, 0, 1 :: int]"
proof -
  have m: "mset [1, 0, 0 :: int] = mset [0, 0, 1]" by simp
  have n: "[0, 0, 1 :: int] \<noteq> []" by simp
  show ?thesis using n m gini_permutation [OF n m] by simp
qed

subsection \<open>Equal frequencies, exact value\<close>

text \<open>
  In exact arithmetic the value of the formula is \<open>(k - 1) / k\<close> when each of the \<open>k\<close>
  distinct labels has frequency \<open>1 / k\<close>.
\<close>

lemma gini_exact_uniform:
  assumes "y \<noteq> []"
    and "\<forall>v\<in>set y. real (count_list y v) / real (length y) = 1 / real (card (set y))"
  shows "gini y = Inr ((real (card (set y)) - 1) / real (card (set y)))"
proof -
  let ?k = "real (card (set y))"
  have k: "0 < ?k" using card_labels_pos [OF assms(1)] by linarith
  have "(\<Sum>v\<in>set y. (real (count_list y v) / real (length y))\<^sup>2)
      = (\<Sum>v\<in>set y. (1 / ?k)\<^sup>2)"
    using assms(2) by (intro sum.cong) simp_all
  also have "\<dots> = 1 / ?k" using k by (simp add: power2_eq_square)
  finally have "gini y = Inr (1 - 1 / ?k)" by (simp only: gini_sum)
  moreover have "(?k - 1) / ?k = 1 - 1 / ?k" using assms by (simp add: diff_divide_distrib)
  ultimately show ?thesis by simp
qed

subsection \<open>Renaming the labels, exact value\<close>

text \<open>
  In exact arithmetic the value of the formula does not change under an injective
  relabelling.
\<close>

lemma gini_exact_relabel:
  fixes f :: "'a::linorder \<Rightarrow> 'b::linorder"
  assumes "y \<noteq> []" and "inj f"
  shows "gini (map f y) = gini y"
proof -
  have inj: "inj_on f (set y)" using assms(2) by (rule inj_on_subset) simp
  have "(\<Sum>w\<in>set (map f y). (real (count_list (map f y) w) / real (length (map f y)))\<^sup>2)
      = (\<Sum>v\<in>set y. (real (count_list (map f y) (f v)) / real (length y))\<^sup>2)"
    using inj by (simp add: sum.reindex)
  also have "\<dots> = (\<Sum>v\<in>set y. (real (count_list y v) / real (length y))\<^sup>2)"
    using assms(2) by (simp add: count_list_map_conv)
  finally show ?thesis by (simp only: gini_sum)
qed

subsection \<open>Effects\<close>

text \<open>The sorting inside \<^verbatim>\<open>np.unique\<close> is done on the new array, and nothing else is written.\<close>

lemma np_unique_st_frame:
  "a < next_addr s \<Longrightarrow> heap (snd (np_unique_st ar s)) a = heap s a"
  by (simp add: np_unique_st_def alloc_def sort_in_place_def Let_def)

lemma np_unique_st_result:
  "fst (np_unique_st ar s) = np_unique (heap s ar)"
  by (simp add: np_unique_st_def np_unique_def alloc_def sort_in_place_def Let_def)

text \<open>
  C8. \<open>gini\<close> has no side effects: for every input sequence \<open>y\<close> the call leaves \<open>y\<close>
  unchanged, as it leaves every array that exists when it is called; it prints nothing
  and binds no global name. Its result is that of the function on the contents of \<open>y\<close>.
\<close>

theorem gini_frame:
  assumes "y < next_addr s"
  shows "heap (snd (gini_st y s)) y = heap s y \<and>
         (\<forall>a<next_addr s. heap (snd (gini_st y s)) a = heap s a) \<and>
         globals (snd (gini_st y s)) = globals s \<and>
         stdout (snd (gini_st y s)) = stdout s \<and>
         fst (gini_st y s) = gini (heap s y)"
proof -
  have s': "snd (gini_st y s) = snd (np_unique_st y s)"
    by (simp add: gini_st_def split_beta Let_def)
  have h: "\<forall>a<next_addr s. heap (snd (gini_st y s)) a = heap s a"
    by (simp add: s' np_unique_st_frame)
  have g: "globals (snd (gini_st y s)) = globals s"
    by (simp add: s' np_unique_st_def alloc_def sort_in_place_def Let_def)
  have out: "stdout (snd (gini_st y s)) = stdout s"
    by (simp add: s' np_unique_st_def alloc_def sort_in_place_def Let_def)
  have "heap (snd (np_unique_st y s)) y = heap s y"
    using assms by (rule np_unique_st_frame)
  then have r: "fst (gini_st y s) = gini (heap s y)"
    by (simp add: gini_st_def gini_def split_beta Let_def np_unique_st_result)
  show ?thesis using assms h g out r by simp
qed

theorem gini_frame_witness:
  "(0::nat) < next_addr \<lparr>heap = (\<lambda>a. [])(0 := [1, 0, 1, 0 :: int]), next_addr = 1,
                          globals = Map.empty, stdout = []\<rparr> \<and>
   heap (snd (gini_st 0 \<lparr>heap = (\<lambda>a. [])(0 := [1, 0, 1, 0 :: int]), next_addr = 1,
                          globals = Map.empty, stdout = []\<rparr>)) 0 = [1, 0, 1, 0] \<and>
   stdout (snd (gini_st 0 \<lparr>heap = (\<lambda>a. [])(0 := [1, 0, 1, 0 :: int]), next_addr = 1,
                          globals = Map.empty, stdout = []\<rparr>)) = [] \<and>
   fst (gini_st 0 \<lparr>heap = (\<lambda>a. [])(0 := [1, 0, 1, 0 :: int]), next_addr = 1,
                          globals = Map.empty, stdout = []\<rparr>) = Inr 0.5"
  using gini_frame [of 0 "\<lparr>heap = (\<lambda>a. [])(0 := [1, 0, 1, 0 :: int]), next_addr = 1,
                          globals = Map.empty, stdout = []\<rparr>"]
  by (simp add: gini_def np_unique_def np_true_divide_def np_power_def np_sum_def
        power2_eq_square)

section \<open>Properties of the function in float64\<close>

subsection \<open>Rounding and summation\<close>

lemma pairwise_sum_short: "length a < 8 \<Longrightarrow> pairwise_sum a = foldl add_f64 0 a"
  by (subst pairwise_sum.simps) simp


lemma f64_0: "f64 0 = 0"
  by (simp add: f64_def round_half_even_def)








text \<open>Roundings used below, each computed from the definition.\<close>

lemma f64_1: "f64 1 = 1"
  by code_simp

lemma f64_2: "f64 2 = 2"
  by code_simp

lemma f64_3: "f64 3 = 3"
  by code_simp

lemma f64_4: "f64 4 = 4"
  by code_simp

lemma f64_5: "f64 5 = 5"
  by code_simp

lemma f64_half: "f64 (1 / 2) = 1 / 2"
  by code_simp

lemma f64_quarter: "f64 (1 / 4) = 1 / 4"
  by code_simp

lemma f64_sixteenth: "f64 (1 / 16) = 1 / 16"
  by code_simp

lemma f64_three_quarters: "f64 (3 / 4) = 3 / 4"
  by code_simp

lemma f64_nine_sixteenths: "f64 (9 / 16) = 9 / 16"
  by code_simp

lemma f64_five_eighths: "f64 (5 / 8) = 5 / 8"
  by code_simp

lemma f64_three_eighths: "f64 (3 / 8) = 3 / 8"
  by code_simp

lemma f64_third: "f64 (1 / 3) = 6004799503160661 / 18014398509481984"
  by code_simp

lemma f64_third_sq:
  "f64 ((6004799503160661 / 18014398509481984) * (6004799503160661 / 18014398509481984))
     = 2001599834386887 / 18014398509481984"
  by code_simp

lemma f64_fifth: "f64 (1 / 5) = 3602879701896397 / 18014398509481984"
  by code_simp

lemma f64_three_fifths: "f64 (3 / 5) = 5404319552844595 / 9007199254740992"
  by code_simp

lemma f64_fifth_sq:
  "f64 ((3602879701896397 / 18014398509481984) * (3602879701896397 / 18014398509481984))
     = 1441151880758559 / 36028797018963968"
  by code_simp

lemma f64_three_fifths_sq:
  "f64 ((5404319552844595 / 9007199254740992) * (5404319552844595 / 9007199254740992))
     = 3242591731706757 / 9007199254740992"
  by code_simp

subsection \<open>Evaluating the function\<close>

lemma gini_f64_counts:
  "gini_f64 y =
     Inr (f64 (1 - np_sum_f64 (np_square_f64 (np_true_divide_f64 (snd (np_unique y)) (length y)))))"
  by (simp add: gini_f64_def split_beta)

text \<open>The function on a vector with three distinct labels, one rounding after the other.\<close>

lemma gini_f64_three:
  assumes "snd (np_unique y) = [c1, c2, c3]" and "length y = n"
    and "f64 (f64 (real c1) / f64 (real n)) = p1"
    and "f64 (f64 (real c2) / f64 (real n)) = p2"
    and "f64 (f64 (real c3) / f64 (real n)) = p3"
    and "f64 (p1 * p1) = q1" and "f64 (p2 * p2) = q2" and "f64 (p3 * p3) = q3"
    and "f64 (0 + q1) = a1" and "f64 (a1 + q2) = a2" and "f64 (a2 + q3) = a3"
    and "f64 (1 - a3) = g"
  shows "gini_f64 y = Inr g"
proof -
  have "np_square_f64 (np_true_divide_f64 (snd (np_unique y)) (length y)) = [q1, q2, q3]"
    using assms(1-8) by (simp add: np_square_f64_def np_true_divide_f64_def)
  moreover have "np_sum_f64 [q1, q2, q3] = a3"
    using assms(9-11) by (simp add: np_sum_f64_def pairwise_sum_short add_f64_def)
  ultimately show ?thesis
    using assms(12) by (simp add: gini_f64_counts)
qed

text \<open>Three labels, once each: the result is 0.6666666666666667.\<close>

lemma gini_f64_012:
  "gini_f64 [0, 1, 2 :: int] = Inr (3002399751580331 / 4503599627370496)"
proof -
  have u: "snd (np_unique [0, 1, 2 :: int]) = [1, 1, 1]" by (simp add: np_unique_def)
  have l: "length [0, 1, 2 :: int] = 3" by simp
  have p: "f64 (f64 (real 1) / f64 (real 3)) = 6004799503160661 / 18014398509481984"
    by (simp add: f64_1 f64_3 f64_third)
  have a1: "f64 (0 + 2001599834386887 / 18014398509481984) = 2001599834386887 / 18014398509481984"
    by code_simp
  have a2: "f64 (2001599834386887 / 18014398509481984 + 2001599834386887 / 18014398509481984)
      = 2001599834386887 / 9007199254740992"
    by code_simp
  have a3: "f64 (2001599834386887 / 9007199254740992 + 2001599834386887 / 18014398509481984)
      = 6004799503160661 / 18014398509481984"
    by code_simp
  have g: "f64 (1 - 6004799503160661 / 18014398509481984) = 3002399751580331 / 4503599627370496"
    by code_simp
  show ?thesis
    by (rule gini_f64_three [OF u l p p p f64_third_sq f64_third_sq f64_third_sq a1 a2 a3 g])
qed

text \<open>Counts 1, 1, 3 in this order: the result is 0.56.\<close>

lemma gini_f64_01222:
  "gini_f64 [0, 1, 2, 2, 2 :: int] = Inr (1261007895663739 / 2251799813685248)"
proof -
  have u: "snd (np_unique [0, 1, 2, 2, 2 :: int]) = [1, 1, 3]" by (simp add: np_unique_def)
  have l: "length [0, 1, 2, 2, 2 :: int] = 5" by simp
  have p1: "f64 (f64 (real 1) / f64 (real 5)) = 3602879701896397 / 18014398509481984"
    by (simp add: f64_1 f64_5 f64_fifth)
  have p3: "f64 (f64 (real 3) / f64 (real 5)) = 5404319552844595 / 9007199254740992"
    by (simp add: f64_3 f64_5 f64_three_fifths)
  have a1: "f64 (0 + 1441151880758559 / 36028797018963968) = 1441151880758559 / 36028797018963968"
    by code_simp
  have a2: "f64 (1441151880758559 / 36028797018963968 + 1441151880758559 / 36028797018963968)
      = 1441151880758559 / 18014398509481984"
    by code_simp
  have a3: "f64 (1441151880758559 / 18014398509481984 + 3242591731706757 / 9007199254740992)
      = 7926335344172073 / 18014398509481984"
    by code_simp
  have g: "f64 (1 - 7926335344172073 / 18014398509481984) = 1261007895663739 / 2251799813685248"
    by code_simp
  show ?thesis
    by (rule gini_f64_three
          [OF u l p1 p1 p3 f64_fifth_sq f64_fifth_sq f64_three_fifths_sq a1 a2 a3 g])
qed

text \<open>The same labels negated: counts 3, 1, 1 in this order, and 0.5599999999999999.\<close>

lemma gini_f64_01222_negated:
  "gini_f64 (map uminus [0, 1, 2, 2, 2 :: int]) = Inr (5044031582654955 / 9007199254740992)"
proof -
  have u: "snd (np_unique (map uminus [0, 1, 2, 2, 2 :: int])) = [3, 1, 1]"
    by (simp add: np_unique_def)
  have l: "length (map uminus [0, 1, 2, 2, 2 :: int]) = 5" by simp
  have p1: "f64 (f64 (real 1) / f64 (real 5)) = 3602879701896397 / 18014398509481984"
    by (simp add: f64_1 f64_5 f64_fifth)
  have p3: "f64 (f64 (real 3) / f64 (real 5)) = 5404319552844595 / 9007199254740992"
    by (simp add: f64_3 f64_5 f64_three_fifths)
  have a1: "f64 (0 + 3242591731706757 / 9007199254740992) = 3242591731706757 / 9007199254740992"
    by code_simp
  have a2: "f64 (3242591731706757 / 9007199254740992 + 1441151880758559 / 36028797018963968)
      = 3602879701896397 / 9007199254740992"
    by code_simp
  have a3: "f64 (3602879701896397 / 9007199254740992 + 1441151880758559 / 36028797018963968)
      = 3963167672086037 / 9007199254740992"
    by code_simp
  have g: "f64 (1 - 3963167672086037 / 9007199254740992) = 5044031582654955 / 9007199254740992"
    by code_simp
  show ?thesis
    by (rule gini_f64_three
          [OF u l p3 p1 p1 f64_three_fifths_sq f64_fifth_sq f64_fifth_sq a1 a2 a3 g])
qed

subsection \<open>The vectors of the scenarios and the empty vector\<close>

text \<open>
  On the empty vector and on the three vectors \<open>[0,0,0,0]\<close>, \<open>[0,0,1,1]\<close> and \<open>[0,0,0,1]\<close>
  no rounding takes place: the rounded function returns the exact values.
\<close>

lemma gini_f64_empty: "gini_f64 ([] :: 'a::linorder list) = Inr 1"
  by (simp add: gini_f64_counts np_unique_def np_true_divide_f64_def np_square_f64_def
        np_sum_f64_def pairwise_sum_short f64_1)

lemma gini_f64_scenarios:
  "gini_f64 [0, 0, 0, 0 :: int] = Inr 0 \<and>
   gini_f64 [0, 0, 1, 1 :: int] = Inr 0.5 \<and>
   gini_f64 [0, 0, 0, 1 :: int] = Inr 0.375"
  by (simp add: gini_f64_counts np_unique_def np_true_divide_f64_def np_square_f64_def
        np_sum_f64_def pairwise_sum_short add_f64_def f64_0 f64_1 f64_2 f64_3 f64_4
        f64_half f64_quarter f64_three_quarters f64_sixteenth f64_nine_sixteenths
        f64_five_eighths f64_three_eighths)

text \<open>The order of the labels does not matter to the rounded function either.\<close>

lemma gini_f64_permutation:
  assumes "mset y' = mset y"
  shows "gini_f64 y' = gini_f64 y"
proof -
  have "sort y' = sort y"
    using assms by (metis mset_sort properties_for_sort sorted_sort)
  moreover have "length y' = length y"
    using assms by (rule mset_eq_length)
  ultimately show ?thesis
    by (simp add: gini_f64_def np_unique_def)
qed

subsection \<open>Range\<close>

text \<open>
  C3. For every non-empty label sequence \<open>y\<close> with \<open>k\<close> distinct labels, \<open>gini y\<close> lies in
  the closed interval from 0 to \<open>(k - 1) / k\<close>. The docstring of the function says the
  same. The function breaks it on \<open>[0, 1, 2]\<close>: with three distinct labels it returns
  0.6666666666666667, which is \<open>3002399751580331 / 2 ^ 52\<close> and more than \<open>(3 - 1) / 3\<close>.
\<close>

theorem gini_f64_exceeds_range:
  "[0, 1, 2 :: int] \<noteq> [] \<and> card (set [0, 1, 2 :: int]) = 3 \<and>
   gini_f64 [0, 1, 2 :: int] = Inr (3002399751580331 / 4503599627370496) \<and>
   (real (card (set [0, 1, 2 :: int])) - 1) / real (card (set [0, 1, 2 :: int]))
     < 3002399751580331 / 4503599627370496"
  by (simp add: gini_f64_012)

subsection \<open>Equal frequencies\<close>







subsection \<open>Renaming the labels\<close>

text \<open>
  C10, as stated: for every non-empty sequence \<open>y\<close> and every injective function \<open>f\<close> on
  labels, the result on \<open>map f y\<close> is the result on \<open>y\<close>. Negation is injective and turns
  the counts 1, 1, 3 of \<open>[0, 1, 2, 2, 2]\<close> into 3, 1, 1: the squares are added in another
  order, and the results are 0.5599999999999999 and 0.56.
\<close>

theorem gini_f64_relabel_counterexample:
  "[0, 1, 2, 2, 2 :: int] \<noteq> [] \<and> inj (uminus :: int \<Rightarrow> int) \<and>
   gini_f64 (map uminus [0, 1, 2, 2, 2 :: int]) \<noteq> gini_f64 [0, 1, 2, 2, 2 :: int]"
  by (simp only: gini_f64_01222 gini_f64_01222_negated) simp

lemma sort_map_strict_mono:
  fixes f :: "'a::linorder \<Rightarrow> 'b::linorder"
  assumes "strict_mono f"
  shows "sort (map f y) = map f (sort y)"
proof (rule properties_for_sort)
  show "mset (map f (sort y)) = mset (map f y)" by simp
  have "mono f" using assms by (rule strict_mono_mono)
  then have "sorted_wrt (\<lambda>a b. f a \<le> f b) (sort y)"
    using sorted_sort [of y] by (auto intro: sorted_wrt_mono_rel [of _ "(\<le>)"] dest: monoD)
  then show "sorted (map f (sort y))" by (simp add: sorted_map)
qed

text \<open>An order-preserving relabelling leaves the array of counts as it is.\<close>

lemma np_unique_counts_strict_mono:
  fixes f :: "'a::linorder \<Rightarrow> 'b::linorder"
  assumes "strict_mono f"
  shows "snd (np_unique (map f y)) = snd (np_unique y)"
proof -
  have inj: "inj f" using assms by (rule strict_mono_imp_inj_on)
  have "snd (np_unique (map f y)) = map (count_list (map f y)) (map f (remdups_adj (sort y)))"
    by (simp add: np_unique_counts np_unique_values sort_map_strict_mono [OF assms]
          remdups_adj_map_injective [OF inj])
  also have "\<dots> = map (count_list y) (remdups_adj (sort y))"
    by (simp add: comp_def count_list_map_conv [OF inj])
  finally show ?thesis by (simp add: np_unique_counts np_unique_values)
qed

lemma np_unique_counts_mset:
  "mset (snd (np_unique y)) = image_mset (count_list y) (mset_set (set y))"
proof -
  have "mset (fst (np_unique y)) = mset_set (set (fst (np_unique y)))"
    using np_unique_values_distinct [of y] by (simp add: mset_set_set)
  then show ?thesis
    by (simp add: np_unique_counts np_unique_values_set)
qed

text \<open>An injective relabelling permutes the array of counts.\<close>

lemma np_unique_counts_inj:
  fixes f :: "'a::linorder \<Rightarrow> 'b::linorder"
  assumes "inj f"
  shows "mset (snd (np_unique (map f y))) = mset (snd (np_unique y))"
proof -
  have i: "inj_on f (set y)" using assms by (rule inj_on_subset) simp
  have "mset (snd (np_unique (map f y)))
      = image_mset (count_list (map f y)) (image_mset f (mset_set (set y)))"
    by (simp add: np_unique_counts_mset image_mset_mset_set [OF i])
  also have "\<dots> = image_mset (count_list y) (mset_set (set y))"
    by (simp add: image_mset.compositionality comp_def count_list_map_conv [OF assms])
  finally show ?thesis by (simp add: np_unique_counts_mset)
qed

text \<open>
  C10, amended: for every non-empty sequence \<open>y\<close> and every injective function \<open>f\<close> on
  labels, the counts of \<open>map f y\<close> are the counts of \<open>y\<close> in some order; and when \<open>f\<close>
  preserves the order of the labels (is strictly increasing), the result on \<open>map f y\<close> is
  the result on \<open>y\<close>.
\<close>

theorem gini_f64_relabel:
  fixes f :: "'a::linorder \<Rightarrow> 'b::linorder"
  assumes "y \<noteq> []" and "inj f"
  shows "mset (snd (np_unique (map f y))) = mset (snd (np_unique y)) \<and>
         (strict_mono f \<longrightarrow> gini_f64 (map f y) = gini_f64 y)"
  using assms(2)
  by (simp add: np_unique_counts_inj gini_f64_counts np_unique_counts_strict_mono)

theorem gini_f64_relabel_witness:
  "[0, 1, 2, 2, 2 :: int] \<noteq> [] \<and> inj (\<lambda>x :: int. x + 10) \<and>
   strict_mono (\<lambda>x :: int. x + 10) \<and>
   mset (snd (np_unique (map (\<lambda>x :: int. x + 10) [0, 1, 2, 2, 2 :: int])))
     = mset (snd (np_unique [0, 1, 2, 2, 2 :: int])) \<and>
   gini_f64 (map (\<lambda>x :: int. x + 10) [0, 1, 2, 2, 2 :: int]) = gini_f64 [0, 1, 2, 2, 2 :: int]"
proof -
  have n: "[0, 1, 2, 2, 2 :: int] \<noteq> []" by simp
  have i: "inj (\<lambda>x :: int. x + 10)" by (rule injI) simp
  have s: "strict_mono (\<lambda>x :: int. x + 10)" by (simp add: strict_mono_def)
  show ?thesis using n i s gini_f64_relabel [OF n i] by blast
qed

end
